theory Spec2Isabelle
  imports Complex_Main
begin

section \<open>Numbers, points and errors\<close>

text \<open>
  The geometry of \<^verbatim>\<open>circpacker/core/basegeom.py\<close> is embedded over the real numbers:
  a Python float is a \<^typ>\<open>real\<close>, a 2-D numpy point is a pair of reals. Rounding,
  overflow, \<^verbatim>\<open>nan\<close> and \<^verbatim>\<open>inf\<close> are therefore outside the model. Where Python
  raises on an arithmetic operation the model returns the error as a value; where numpy
  would continue with \<^verbatim>\<open>nan\<close>/\<^verbatim>\<open>inf\<close> or with a complex number the model stops with
  the outcome \<open>NonFinite\<close> respectively \<open>ComplexValue\<close>, which stand for "the run has
  left the real numbers" and not for a Python exception.
\<close>

type_synonym point = "real \<times> real"

datatype error =
    ValueError
  | ZeroDivisionError
  | KeyError
  | IndexError
  | NonFinite
  | ComplexValue

definition euclidean_distance :: "point \<Rightarrow> point \<Rightarrow> real" where
  "euclidean_distance point_a point_b =
     sqrt ((fst point_a - fst point_b)\<^sup>2 + (snd point_a - snd point_b)\<^sup>2)"

text \<open>\<^verbatim>\<open>x ** 0.5\<close> on a Python float: a negative base gives a complex number.\<close>

definition pow_half :: "real \<Rightarrow> error + real" where
  "pow_half x = (if x < 0 then Inl ComplexValue else Inr (sqrt x))"

text \<open>\<^verbatim>\<open>x ** -1\<close> on a Python float: a zero base raises \<^verbatim>\<open>ZeroDivisionError\<close>.\<close>

definition pow_neg1 :: "real \<Rightarrow> error + real" where
  "pow_neg1 x = (if x = 0 then Inl ZeroDivisionError else Inr (1 / x))"

text \<open>\<^verbatim>\<open>x / y\<close> on Python floats.\<close>

definition py_div :: "real \<Rightarrow> real \<Rightarrow> error + real" where
  "py_div x y = (if y = 0 then Inl ZeroDivisionError else Inr (x / y))"

section \<open>Circle\<close>

record Circle =
  center :: point
  radius :: real
  curvature :: real
  diameter :: real
  area :: real
  perimeter :: real

text \<open>The attributes that \<^verbatim>\<open>Circle.__init__\<close> sets from a centre and a radius.\<close>

definition circle_of :: "point \<Rightarrow> real \<Rightarrow> Circle" where
  "circle_of c r =
     \<lparr>center = c, radius = r, curvature = 1 / r, diameter = 2 * r,
      area = pi * r\<^sup>2, perimeter = 2 * r * pi\<rparr>"

text \<open>\<^verbatim>\<open>Circle.__init__\<close>: the curvature \<^verbatim>\<open>1 / self.radius\<close> raises on a zero radius.\<close>

definition Circle_init :: "point \<Rightarrow> real \<Rightarrow> error + Circle" where
  "Circle_init c r = (if r = 0 then Inl ZeroDivisionError else Inr (circle_of c r))"

text \<open>
  The radius of \<^verbatim>\<open>Circle.descartesTheorem\<close> (lines 145 to 166): the special case when
  \<^verbatim>\<open>circle2 is None\<close>, the general case otherwise. The general case adds
  \<^verbatim>\<open>circle2.radius\<close> as well as \<^verbatim>\<open>circle2.curvature\<close>, as the source does.
\<close>

definition descartes_radius :: "Circle \<Rightarrow> Circle \<Rightarrow> Circle option \<Rightarrow> error + real" where
  "descartes_radius self circle1 circle2 =
     (case circle2 of
        None \<Rightarrow>
          (case pow_half (curvature self * curvature circle1) of
             Inl e \<Rightarrow> Inl e
           | Inr s \<Rightarrow> pow_neg1 (curvature self + curvature circle1 + 2 * s))
      | Some c2 \<Rightarrow>
          (case pow_half ((curvature self * curvature circle1)
                          + (curvature circle1 * curvature c2)
                          + (curvature c2 * curvature self)) of
             Inl e \<Rightarrow> Inl e
           | Inr s \<Rightarrow>
               pow_neg1 (curvature self + curvature circle1 + radius c2 + curvature c2
                         + 2 * s)))"

text \<open>
  The centres (lines 167 to 185), by the intersection of two circles. The division of the
  numpy vector by \<open>dist\<close> does not raise; the float division that gives \<open>chordDist\<close> does,
  so a zero \<open>dist\<close> ends in \<^verbatim>\<open>ZeroDivisionError\<close>.
\<close>

definition descartes_centers ::
  "Circle \<Rightarrow> Circle \<Rightarrow> real \<Rightarrow> error + (Circle \<times> Circle)" where
  "descartes_centers self circle1 r =
     (let R1 = radius self + r;
          R2 = radius circle1 + r;
          dist = radius self + radius circle1
      in if dist = 0 then Inl ZeroDivisionError
         else
           (let cos = (fst (center circle1) - fst (center self)) / dist;
                sin = (snd (center circle1) - snd (center self)) / dist;
                chordDist = (R1\<^sup>2 - R2\<^sup>2 + dist\<^sup>2) / (2 * dist)
            in case pow_half (R1\<^sup>2 - chordDist\<^sup>2) of
                 Inl e \<Rightarrow> Inl e
               | Inr halfChord \<Rightarrow>
                   (let center3 = (fst (center self) + chordDist * cos - halfChord * sin,
                                   snd (center self) + chordDist * sin + halfChord * cos);
                        center4 = (fst (center self) + chordDist * cos + halfChord * sin,
                                   snd (center self) + chordDist * sin - halfChord * cos)
                    in case Circle_init center3 r of
                         Inl e \<Rightarrow> Inl e
                       | Inr c3 \<Rightarrow>
                           (case Circle_init center4 r of
                              Inl e \<Rightarrow> Inl e
                            | Inr c4 \<Rightarrow> Inr (c3, c4)))))"

definition descartesTheorem ::
  "Circle \<Rightarrow> Circle \<Rightarrow> Circle option \<Rightarrow> error + (Circle \<times> Circle)" where
  "descartesTheorem self circle1 circle2 =
     (case descartes_radius self circle1 circle2 of
        Inl e \<Rightarrow> Inl e
      | Inr r \<Rightarrow> descartes_centers self circle1 r)"

section \<open>Triangle\<close>

text \<open>
  \<^verbatim>\<open>vertices\<close> and \<^verbatim>\<open>sides\<close> are Python dictionaries in insertion order, here association
  lists. \<^verbatim>\<open>lstCirc\<close> is only set by \<^verbatim>\<open>circInTriangle\<close>, so it is optional. The two
  fields \<^verbatim>\<open>area\<close> and \<^verbatim>\<open>perimeter\<close> carry a prefix, the circle has fields of that name.
\<close>

record Triangle =
  vertices :: "(char \<times> point) list"
  tri_area :: real
  sides :: "(char \<times> real) list"
  tri_perimeter :: real
  distToIncenter :: "real list"
  incircle :: Circle
  lstCirc :: "Circle list option"

text \<open>The summands of the Gauss area formula over the closed vertex list \<open>v\<close>.\<close>

definition gauss_terms :: "point list \<Rightarrow> real list" where
  "gauss_terms v = map (\<lambda>(p, q). fst p * snd q - snd p * fst q) (zip (butlast v) (tl v))"

text \<open>
  \<^verbatim>\<open>Triangle.getGeomProperties\<close>. Indexing an empty vertex array raises
  \<^verbatim>\<open>IndexError\<close>, a missing label raises \<^verbatim>\<open>KeyError\<close>. The divisions by the perimeter
  are numpy divisions, which give \<^verbatim>\<open>nan\<close> on a zero perimeter instead of raising; the
  constructor of the incircle raises on a zero radius.
\<close>

definition getGeomProperties :: "(char \<times> point) list \<Rightarrow> error + Triangle" where
  "getGeomProperties verts =
     (case map snd verts of
        [] \<Rightarrow> Inl IndexError
      | p0 # ps \<Rightarrow>
          (let v = (p0 # ps) @ [p0];
               area = 0.5 * \<bar>sum_list (gauss_terms v)\<bar>
           in case (map_of verts CHR ''A'', map_of verts CHR ''B'', map_of verts CHR ''C'') of
                (Some A, Some B, Some C) \<Rightarrow>
                  (let a = euclidean_distance B C;
                       b = euclidean_distance A C;
                       c = euclidean_distance A B;
                       perimeter = a + b + c
                   in if perimeter = 0 then Inl NonFinite
                      else
                        (let radius = 2 * area / perimeter;
                             center = ((a * fst A + b * fst B + c * fst C) / perimeter,
                                       (a * snd A + b * snd B + c * snd C) / perimeter);
                             distToIncenter = map (\<lambda>v. euclidean_distance center v) (map snd verts)
                         in case Circle_init center radius of
                              Inl e \<Rightarrow> Inl e
                            | Inr inc \<Rightarrow>
                                Inr \<lparr>vertices = verts, tri_area = area,
                                     sides = [(CHR ''a'', a), (CHR ''b'', b), (CHR ''c'', c)],
                                     tri_perimeter = perimeter,
                                     distToIncenter = distToIncenter,
                                     incircle = inc, lstCirc = None\<rparr>))
              | _ \<Rightarrow> Inl KeyError))"

text \<open>\<^verbatim>\<open>Triangle.__init__\<close>: the rows of the coordinates are labelled A, B, C.\<close>

definition Triangle_init :: "point list \<Rightarrow> error + Triangle" where
  "Triangle_init coordinates = getGeomProperties (zip ''ABC'' coordinates)"

section \<open>The packing loop\<close>

text \<open>
  The radius of the next circle towards the vertex (lines 368 to 370 and 388 to 390), a
  division of Python floats.
\<close>

definition candidate_radius :: "Circle \<Rightarrow> real \<Rightarrow> error + real" where
  "candidate_radius auxCirc auxDist =
     py_div (radius auxCirc * auxDist - (radius auxCirc)\<^sup>2) (radius auxCirc + auxDist)"

text \<open>The circle placed on the segment to the vertex (lines 375 to 379 and 391 to 395).\<close>

definition place_circle :: "Circle \<Rightarrow> real \<Rightarrow> point \<Rightarrow> real \<Rightarrow> error + Circle" where
  "place_circle auxCirc auxDist vert r =
     (let dist = radius auxCirc + r
      in case py_div dist auxDist of
           Inl e \<Rightarrow> Inl e
         | Inr q \<Rightarrow>
             Circle_init (fst (center auxCirc) + q * (fst vert - fst (center auxCirc)),
                          snd (center auxCirc) + q * (snd vert - snd (center auxCirc))) r)"

text \<open>
  One pass of the \<^verbatim>\<open>while True\<close> loop of the length mode: \<open>None\<close> is the
  \<^verbatim>\<open>break\<close>, otherwise the circles appended, the new distance and the new circle.
\<close>

definition lengthStep ::
  "point \<Rightarrow> real \<Rightarrow> Circle \<Rightarrow> real \<Rightarrow> error + (Circle list \<times> real \<times> Circle) option" where
  "lengthStep vert lenght auxCirc auxDist =
     (case candidate_radius auxCirc auxDist of
        Inl e \<Rightarrow> Inl e
      | Inr r \<Rightarrow>
          if 2 * r \<le> lenght then Inr None
          else
            (case place_circle auxCirc auxDist vert r of
               Inl e \<Rightarrow> Inl e
             | Inr circle \<Rightarrow>
                 (case descartesTheorem auxCirc circle None of
                    Inl e \<Rightarrow> Inl e
                  | Inr (c31, c32) \<Rightarrow>
                      Inr (Some ([circle, c31, c32],
                                 euclidean_distance vert (center circle), circle)))))"

text \<open>One pass of the \<^verbatim>\<open>for\<close> loop of the depth mode.\<close>

definition depthStep ::
  "point \<Rightarrow> Circle \<Rightarrow> real \<Rightarrow> error + (Circle list \<times> real \<times> Circle)" where
  "depthStep vert auxCirc auxDist =
     (case candidate_radius auxCirc auxDist of
        Inl e \<Rightarrow> Inl e
      | Inr r \<Rightarrow>
     (case place_circle auxCirc auxDist vert r of
        Inl e \<Rightarrow> Inl e
      | Inr circle \<Rightarrow>
     (case descartesTheorem auxCirc circle None of
        Inl e \<Rightarrow> Inl e
      | Inr (c31, c32) \<Rightarrow>
     (case descartesTheorem auxCirc circle (Some c31) of
        Inl e \<Rightarrow> Inl e
      | Inr (c41, c42) \<Rightarrow>
     (case descartesTheorem circle c31 None of
        Inl e \<Rightarrow> Inl e
      | Inr (c51, c52) \<Rightarrow>
     (case descartesTheorem circle c32 None of
        Inl e \<Rightarrow> Inl e
      | Inr (c61, c62) \<Rightarrow>
     (case descartesTheorem auxCirc c31 None of
        Inl e \<Rightarrow> Inl e
      | Inr (c71, c72) \<Rightarrow>
     (case descartesTheorem auxCirc c32 None of
        Inl e \<Rightarrow> Inl e
      | Inr (c81, c82) \<Rightarrow>
          Inr ([circle, c31, c32, c41, c42, c52, c61, c71, c82],
               euclidean_distance vert (center circle), circle)))))))))"

text \<open>
  The \<^verbatim>\<open>while True\<close> loop may run forever, so its result is optional: \<open>None\<close> is a run
  that does not end.
\<close>

partial_function (option) lengthLoop ::
  "point \<Rightarrow> real \<Rightarrow> Circle \<Rightarrow> real \<Rightarrow> Circle list \<Rightarrow> (error + Circle list) option" where
  "lengthLoop vert lenght auxCirc auxDist lst =
     (case lengthStep vert lenght auxCirc auxDist of
        Inl e \<Rightarrow> Some (Inl e)
      | Inr None \<Rightarrow> Some (Inr lst)
      | Inr (Some (circs, auxDist', auxCirc')) \<Rightarrow>
          lengthLoop vert lenght auxCirc' auxDist' (lst @ circs))"

text \<open>\<^verbatim>\<open>for i in range(1, depth + 1)\<close>, with the number of passes left.\<close>

fun depthLoop ::
  "point \<Rightarrow> nat \<Rightarrow> Circle \<Rightarrow> real \<Rightarrow> Circle list \<Rightarrow> error + Circle list" where
  "depthLoop vert 0 auxCirc auxDist lst = Inr lst"
| "depthLoop vert (Suc n) auxCirc auxDist lst =
     (case depthStep vert auxCirc auxDist of
        Inl e \<Rightarrow> Inl e
      | Inr (circs, auxDist', auxCirc') \<Rightarrow>
          depthLoop vert n auxCirc' auxDist' (lst @ circs))"

text \<open>
  The loop over \<^verbatim>\<open>zip(self.vertices.values(), self.distToIncenter)\<close>; each vertex starts
  again from the incircle and extends the one list.
\<close>

fun vertexLoop ::
  "Circle \<Rightarrow> int option \<Rightarrow> real option \<Rightarrow> (point \<times> real) list \<Rightarrow> Circle list
     \<Rightarrow> (error + Circle list) option" where
  "vertexLoop inc depth lenght [] lst = Some (Inr lst)"
| "vertexLoop inc depth lenght ((vert, distance) # rest) lst =
     (if depth = None \<and> lenght \<noteq> None then
        (case lengthLoop vert (the lenght) inc distance lst of
           None \<Rightarrow> None
         | Some (Inl e) \<Rightarrow> Some (Inl e)
         | Some (Inr lst') \<Rightarrow> vertexLoop inc depth lenght rest lst')
      else if lenght = None \<and> depth \<noteq> None \<and> the depth \<ge> 0 then
        (case depthLoop vert (nat (the depth)) inc distance lst of
           Inl e \<Rightarrow> Some (Inl e)
         | Inr lst' \<Rightarrow> vertexLoop inc depth lenght rest lst')
      else vertexLoop inc depth lenght rest lst)"

text \<open>Lines 356 to 360: the preferred keyword \<^verbatim>\<open>length\<close> (here \<open>length'\<close>) against
  the legacy \<^verbatim>\<open>lenght\<close>.\<close>

definition resolve_length :: "real option \<Rightarrow> real option \<Rightarrow> error + real option" where
  "resolve_length lenght length' =
     (case length' of
        None \<Rightarrow> Inr lenght
      | Some l \<Rightarrow>
          if lenght \<noteq> None \<and> l \<noteq> the lenght then Inl ValueError
          else Inr (Some l))"

text \<open>
  \<^verbatim>\<open>Triangle.circInTriangle\<close>. The result is the returned value (\<open>None\<close> when the plot
  is wanted) together with the triangle, whose \<^verbatim>\<open>lstCirc\<close> now holds the list. The
  drawing itself is not part of the model.
\<close>

definition circInTriangle ::
  "Triangle \<Rightarrow> int option \<Rightarrow> real option \<Rightarrow> bool \<Rightarrow> real option
     \<Rightarrow> (error + (Circle list option \<times> Triangle)) option" where
  "circInTriangle self depth lenght want2plot length' =
     (case resolve_length lenght length' of
        Inl e \<Rightarrow> Some (Inl e)
      | Inr lenght' \<Rightarrow>
          (case vertexLoop (incircle self) depth lenght'
                  (zip (map snd (vertices self)) (distToIncenter self)) [incircle self] of
             None \<Rightarrow> None
           | Some (Inl e) \<Rightarrow> Some (Inl e)
           | Some (Inr lst) \<Rightarrow>
               Some (Inr (if want2plot then None else Some lst,
                          self\<lparr>lstCirc := Some lst\<rparr>))))"

section \<open>Notions of the specification\<close>

text \<open>
  A circle as the constructor leaves it, with a positive radius: the data model of the
  specification asks for \<open>radius > 0\<close> and \<open>curvature = 1 / radius\<close>.
\<close>

definition valid_circle :: "Circle \<Rightarrow> bool" where
  "valid_circle c = (0 < radius c \<and> curvature c = 1 / radius c)"

text \<open>External tangency: the centres are as far apart as the sum of the radii.\<close>

definition tangent :: "Circle \<Rightarrow> Circle \<Rightarrow> bool" where
  "tangent c1 c2 = (euclidean_distance (center c1) (center c2) = radius c1 + radius c2)"

text \<open>
  The state of one branch of the packing: the current circle has a positive radius, the
  working distance is the distance from the vertex to its centre, and the vertex lies
  outside the circle.
\<close>

definition branch_state :: "point \<Rightarrow> Circle \<Rightarrow> real \<Rightarrow> bool" where
  "branch_state vert auxCirc auxDist =
     (valid_circle auxCirc \<and> auxDist = euclidean_distance vert (center auxCirc)
      \<and> radius auxCirc < auxDist)"

text \<open>
  A concrete input: the right triangle with the vertices (0, 0), (4, 0), (0, 3), with the
  fields that the constructor gives it (sides 5, 3, 4, area 6, incircle of radius 1 around
  (1, 1)).
\<close>

definition triangle_345 :: Triangle where
  "triangle_345 =
     \<lparr>vertices = [(CHR ''A'', (0, 0)), (CHR ''B'', (4, 0)), (CHR ''C'', (0, 3))],
      tri_area = 6,
      sides = [(CHR ''a'', 5), (CHR ''b'', 3), (CHR ''c'', 4)],
      tri_perimeter = 12,
      distToIncenter = [sqrt 2, sqrt 10, sqrt 5],
      incircle = circle_of (1, 1) 1, lstCirc = None\<rparr>"

section \<open>Arithmetic of the chord construction\<close>

lemma sqrt_eqI: "0 \<le> y \<Longrightarrow> x = y\<^sup>2 \<Longrightarrow> sqrt x = (y::real)"
  by (simp add: real_sqrt_unique)


lemma chordDist_eq:
  fixes r0 r d :: real
  assumes "d \<noteq> 0"
  shows "((r0 + r)\<^sup>2 - (d - r0 + r)\<^sup>2 + d\<^sup>2) / (2 * d) = r0 + r * (2 * r0 - d) / d"
  using assms by (simp add: field_simps power2_eq_square)

lemma chord_radicand:
  fixes r0 r d :: real
  assumes "d \<noteq> 0"
  shows "(r0 + r)\<^sup>2 - (r0 + r * (2 * r0 - d) / d)\<^sup>2 = 4 * r0 * (d - r0) * r * (d + r) / d\<^sup>2"
  using assms by (simp add: field_simps power2_eq_square)

lemma chord_far:
  fixes r0 r d :: real
  assumes "d \<noteq> 0"
  shows "(r0 + r * (2 * r0 - d) / d - d)\<^sup>2 + ((r0 + r)\<^sup>2 - (r0 + r * (2 * r0 - d) / d)\<^sup>2)
         = (d - r0 + r)\<^sup>2"
  using assms by (simp add: field_simps power2_eq_square)

text \<open>
  With positive radii the half chord is real, and the chord point is at the wanted
  distances from the two centres.
\<close>

lemma chord_facts:
  fixes r0 r1 r :: real
  assumes pos: "0 < r0" "0 < r1" "0 < r"
  defines "d \<equiv> r0 + r1"
  defines "a \<equiv> ((r0 + r)\<^sup>2 - (r1 + r)\<^sup>2 + d\<^sup>2) / (2 * d)"
  shows "0 \<le> (r0 + r)\<^sup>2 - a\<^sup>2"
    and "a\<^sup>2 + (sqrt ((r0 + r)\<^sup>2 - a\<^sup>2))\<^sup>2 = (r0 + r)\<^sup>2"
    and "(a - d)\<^sup>2 + (sqrt ((r0 + r)\<^sup>2 - a\<^sup>2))\<^sup>2 = (r1 + r)\<^sup>2"
proof -
  have d0: "d \<noteq> 0" and r1: "r1 = d - r0" using pos by (simp_all add: d_def)
  have a: "a = r0 + r * (2 * r0 - d) / d"
    unfolding a_def r1 by (rule chordDist_eq [OF d0])
  have rad: "(r0 + r)\<^sup>2 - a\<^sup>2 = 4 * r0 * r1 * r * (d + r) / d\<^sup>2"
    unfolding a r1 by (rule chord_radicand [OF d0])
  have "0 \<le> 4 * r0 * r1 * r * (d + r) / d\<^sup>2"
    using pos by (simp add: d_def)
  with rad show nn: "0 \<le> (r0 + r)\<^sup>2 - a\<^sup>2" by simp
  then show "a\<^sup>2 + (sqrt ((r0 + r)\<^sup>2 - a\<^sup>2))\<^sup>2 = (r0 + r)\<^sup>2" by simp
  have "(a - d)\<^sup>2 + ((r0 + r)\<^sup>2 - a\<^sup>2) = (r1 + r)\<^sup>2"
    unfolding a r1 by (rule chord_far [OF d0])
  with nn show "(a - d)\<^sup>2 + (sqrt ((r0 + r)\<^sup>2 - a\<^sup>2))\<^sup>2 = (r1 + r)\<^sup>2" by simp
qed

section \<open>The tangent-circle construction\<close>

lemma valid_circle_of: "0 < r \<Longrightarrow> valid_circle (circle_of p r)"
  by (simp add: valid_circle_def circle_of_def)

lemma circle_of_sel [simp]:
  "center (circle_of p r) = p" "radius (circle_of p r) = r" "curvature (circle_of p r) = 1 / r"
  by (simp_all add: circle_of_def)

lemma Circle_init_pos: "0 < r \<Longrightarrow> Circle_init p r = Inr (circle_of p r)"
  by (simp add: Circle_init_def)

lemma valid_curvature_pos: "valid_circle c \<Longrightarrow> 0 < curvature c"
  by (simp add: valid_circle_def)

text \<open>With positive radii the centres are always found, whatever the new radius.\<close>

lemma descartes_centers_total:
  assumes pos: "0 < radius self" "0 < radius circle1" "0 < r"
  shows "\<exists>p3 p4. descartes_centers self circle1 r = Inr (circle_of p3 r, circle_of p4 r)"
proof -
  have d0: "radius self + radius circle1 \<noteq> 0" using pos by simp
  have nn: "\<not> (radius self + r)\<^sup>2 -
      (((radius self + r)\<^sup>2 - (radius circle1 + r)\<^sup>2 + (radius self + radius circle1)\<^sup>2)
        / (2 * (radius self + radius circle1)))\<^sup>2 < 0"
    using chord_facts(1) [OF pos] by simp
  have r0: "r \<noteq> 0" using pos by simp
  show ?thesis
    unfolding descartes_centers_def Let_def pow_half_def Circle_init_def
    using d0 nn r0 by simp blast
qed


text \<open>The radius of the special case, for circles of positive radius.\<close>

lemma descartes_radius_special:
  assumes "valid_circle self" "valid_circle circle1"
  shows "descartes_radius self circle1 None =
           Inr (1 / (curvature self + curvature circle1
                     + 2 * sqrt (curvature self * curvature circle1)))"
    and "0 < 1 / (curvature self + curvature circle1
                  + 2 * sqrt (curvature self * curvature circle1))"
proof -
  have c: "0 < curvature self" "0 < curvature circle1"
    using assms by (simp_all add: valid_curvature_pos)
  then have p: "0 \<le> curvature self * curvature circle1" by simp
  then have s: "0 \<le> sqrt (curvature self * curvature circle1)" by simp
  have sum: "0 < curvature self + curvature circle1 + 2 * sqrt (curvature self * curvature circle1)"
    using c s by linarith
  show "descartes_radius self circle1 None =
           Inr (1 / (curvature self + curvature circle1
                     + 2 * sqrt (curvature self * curvature circle1)))"
    using p sum by (simp add: descartes_radius_def pow_half_def pow_neg1_def)
  show "0 < 1 / (curvature self + curvature circle1
                  + 2 * sqrt (curvature self * curvature circle1))"
    using sum by simp
qed

text \<open>The radius of the general case: the radius of the third circle is one of the summands.\<close>

lemma descartes_radius_general:
  assumes "valid_circle self" "valid_circle circle1" "valid_circle circle2"
  shows "descartes_radius self circle1 (Some circle2) =
           Inr (1 / (curvature self + curvature circle1 + radius circle2 + curvature circle2
                     + 2 * sqrt (curvature self * curvature circle1
                                 + curvature circle1 * curvature circle2
                                 + curvature circle2 * curvature self)))"
    and "0 < 1 / (curvature self + curvature circle1 + radius circle2 + curvature circle2
                     + 2 * sqrt (curvature self * curvature circle1
                                 + curvature circle1 * curvature circle2
                                 + curvature circle2 * curvature self))"
proof -
  have c: "0 < curvature self" "0 < curvature circle1" "0 < curvature circle2" "0 < radius circle2"
    using assms by (simp_all add: valid_circle_def)
  then have p: "0 \<le> curvature self * curvature circle1
                      + curvature circle1 * curvature circle2
                      + curvature circle2 * curvature self"
    by (simp add: add_nonneg_nonneg)
  then have s: "0 \<le> sqrt (curvature self * curvature circle1
                                 + curvature circle1 * curvature circle2
                                 + curvature circle2 * curvature self)" by simp
  have sum: "0 < curvature self + curvature circle1 + radius circle2 + curvature circle2
                     + 2 * sqrt (curvature self * curvature circle1
                                 + curvature circle1 * curvature circle2
                                 + curvature circle2 * curvature self)"
    using c s by linarith
  show "descartes_radius self circle1 (Some circle2) =
           Inr (1 / (curvature self + curvature circle1 + radius circle2 + curvature circle2
                     + 2 * sqrt (curvature self * curvature circle1
                                 + curvature circle1 * curvature circle2
                                 + curvature circle2 * curvature self)))"
    using p sum by (simp add: descartes_radius_def pow_half_def pow_neg1_def)
  show "0 < 1 / (curvature self + curvature circle1 + radius circle2 + curvature circle2
                     + 2 * sqrt (curvature self * curvature circle1
                                 + curvature circle1 * curvature circle2
                                 + curvature circle2 * curvature self))"
    using sum by simp
qed

text \<open>
  So on circles of positive radius the construction never fails, and it returns two
  circles of positive radius again.
\<close>

lemma descartesTheorem_total:
  assumes "valid_circle self" "valid_circle circle1"
    and "\<And>c2. circle2 = Some c2 \<Longrightarrow> valid_circle c2"
  shows "\<exists>p3 p4 r. 0 < r \<and> descartes_radius self circle1 circle2 = Inr r
           \<and> descartesTheorem self circle1 circle2 = Inr (circle_of p3 r, circle_of p4 r)"
proof -
  obtain r where r: "descartes_radius self circle1 circle2 = Inr r" "0 < r"
  proof (cases circle2)
    case None
    then show ?thesis using descartes_radius_special [OF assms(1,2)] that by simp
  next
    case (Some c2)
    then show ?thesis using descartes_radius_general [OF assms(1,2) assms(3) [OF Some]] that by simp
  qed
  have pos: "0 < radius self" "0 < radius circle1"
    using assms(1,2) by (simp_all add: valid_circle_def)
  from descartes_centers_total [OF pos r(2)] obtain p3 p4
    where "descartes_centers self circle1 r = Inr (circle_of p3 r, circle_of p4 r)" by blast
  then have "0 < r \<and> descartes_radius self circle1 circle2 = Inr r
             \<and> descartesTheorem self circle1 circle2 = Inr (circle_of p3 r, circle_of p4 r)"
    using r by (simp add: descartesTheorem_def)
  then show ?thesis by blast
qed

section \<open>Claims on the tangent-circle construction\<close>

text \<open>
  C1. The claim: for three mutually tangent circles the general case computes the new
  radius as the reciprocal of \<open>c0 + c1 + c2 + 2 * sqrt (c0 * c1 + c1 * c2 + c2 * c0)\<close>, with no
  other term in the sum. The source adds the radius of the third circle to that sum. At
  the mutually tangent circles of radius 1, 1 and 2/3 around (-1, 0), (1, 0) and
  (0, 4/3) the curvatures are 1, 1 and 3/2, the Descartes relation gives the radius
  2/15, and the code returns two circles of radius 6/49.
\<close>

theorem C1_general_case_adds_radius:
  "valid_circle (circle_of (-1, 0) 1) \<and> valid_circle (circle_of (1, 0) 1)
   \<and> valid_circle (circle_of (0, 4 / 3) (2 / 3))
   \<and> tangent (circle_of (-1, 0) 1) (circle_of (1, 0) 1)
   \<and> tangent (circle_of (-1, 0) 1) (circle_of (0, 4 / 3) (2 / 3))
   \<and> tangent (circle_of (1, 0) 1) (circle_of (0, 4 / 3) (2 / 3))
   \<and> (\<exists>p3 p4. descartesTheorem (circle_of (-1, 0) 1) (circle_of (1, 0) 1)
                  (Some (circle_of (0, 4 / 3) (2 / 3)))
                = Inr (circle_of p3 (6 / 49), circle_of p4 (6 / 49)))
   \<and> 1 / (curvature (circle_of (-1, 0) 1) + curvature (circle_of (1, 0) 1)
          + curvature (circle_of (0, 4 / 3) (2 / 3))
          + 2 * sqrt (curvature (circle_of (-1, 0) 1) * curvature (circle_of (1, 0) 1)
                      + curvature (circle_of (1, 0) 1) * curvature (circle_of (0, 4 / 3) (2 / 3))
                      + curvature (circle_of (0, 4 / 3) (2 / 3)) * curvature (circle_of (-1, 0) 1)))
       = (2 / 15 :: real)"
proof -
  let ?A = "circle_of (-1, 0) 1" and ?B = "circle_of (1, 0) 1"
    and ?C = "circle_of (0, 4 / 3) (2 / 3)"
  have v: "valid_circle ?A" "valid_circle ?B" "valid_circle ?C"
    by (simp_all add: valid_circle_of)
  have s53: "sqrt (25 / 9) = 5 / 3"
    by (rule sqrt_eqI) (simp_all add: power2_eq_square)
  have t: "tangent ?A ?B" "tangent ?A ?C" "tangent ?B ?C"
    by (simp_all add: tangent_def euclidean_distance_def power2_eq_square s53)
  have rad: "descartes_radius ?A ?B (Some ?C) = Inr (6 / 49)"
    by (simp add: descartes_radius_def pow_half_def pow_neg1_def)
  from descartesTheorem_total [of ?A ?B "Some ?C"] v
  obtain p3 p4 r where r: "descartes_radius ?A ?B (Some ?C) = Inr r"
    and res: "descartesTheorem ?A ?B (Some ?C) = Inr (circle_of p3 r, circle_of p4 r)"
    by auto
  from r rad have "r = 6 / 49" by simp
  with res have "\<exists>p3 p4. descartesTheorem ?A ?B (Some ?C)
      = Inr (circle_of p3 (6 / 49), circle_of p4 (6 / 49))"
    by blast
  moreover have "1 / (curvature ?A + curvature ?B + curvature ?C
          + 2 * sqrt (curvature ?A * curvature ?B + curvature ?B * curvature ?C
                      + curvature ?C * curvature ?A)) = (2 / 15 :: real)"
    by simp
  ultimately show ?thesis using v t by blast
qed



section \<open>One step towards a vertex\<close>

text \<open>What a pass of either loop has computed when it places a circle.\<close>

lemma place_circle_Inr:
  assumes "place_circle auxCirc auxDist vert r = Inr circle"
  shows "circle = circle_of
           (fst (center auxCirc) + ((radius auxCirc + r) / auxDist) * (fst vert - fst (center auxCirc)),
            snd (center auxCirc) + ((radius auxCirc + r) / auxDist) * (snd vert - snd (center auxCirc))) r"
  using assms
  by (auto simp: place_circle_def Let_def py_div_def Circle_init_def split: if_splits)

lemma candidate_radius_Inr:
  assumes "candidate_radius auxCirc auxDist = Inr r"
  shows "r = (radius auxCirc * auxDist - (radius auxCirc)\<^sup>2) / (radius auxCirc + auxDist)"
  using assms by (auto simp: candidate_radius_def py_div_def split: if_splits)

lemma depthStep_Inr:
  assumes "depthStep vert auxCirc auxDist = Inr (circs, auxDist', circle)"
  shows "\<exists>r. candidate_radius auxCirc auxDist = Inr r
           \<and> place_circle auxCirc auxDist vert r = Inr circle
           \<and> auxDist' = euclidean_distance vert (center circle)
           \<and> length circs = 9 \<and> hd circs = circle"
  using assms
  by (auto simp: depthStep_def split: sum.splits prod.splits)

lemma lengthStep_Inr:
  assumes "lengthStep vert lenght auxCirc auxDist = Inr (Some (circs, auxDist', circle))"
  shows "\<exists>r. candidate_radius auxCirc auxDist = Inr r \<and> \<not> 2 * r \<le> lenght
           \<and> place_circle auxCirc auxDist vert r = Inr circle
           \<and> auxDist' = euclidean_distance vert (center circle)
           \<and> length circs = 3 \<and> hd circs = circle"
  using assms
  by (auto simp: lengthStep_def split: sum.splits prod.splits if_splits)

lemma euclidean_distance_commute: "euclidean_distance p q = euclidean_distance q p"
  by (simp add: euclidean_distance_def power2_commute)

lemma euclidean_distance_scaled:
  "euclidean_distance v (fst o' + q * (fst v - fst o'), snd o' + q * (snd v - snd o'))
     = \<bar>1 - q\<bar> * euclidean_distance v o'"
proof -
  have "(fst v - (fst o' + q * (fst v - fst o')))\<^sup>2 + (snd v - (snd o' + q * (snd v - snd o')))\<^sup>2
        = (1 - q)\<^sup>2 * ((fst v - fst o')\<^sup>2 + (snd v - snd o')\<^sup>2)"
    by (simp add: power2_eq_square algebra_simps)
  then show ?thesis
    by (simp add: euclidean_distance_def real_sqrt_mult)
qed

text \<open>
  The arithmetic of a step from radius \<open>R\<close> at distance \<open>D\<close>: the new radius is positive
  and smaller than the distance that is left, and radius and distance keep their ratio.
\<close>

lemma step_arith:
  fixes R D :: real
  assumes "0 < R" "R < D"
  defines "r \<equiv> (R * D - R\<^sup>2) / (R + D)"
  shows "0 < r" and "r < D - R - r" and "(R + r) / D < 1"
    and "r / (D - R - r) = R / D" and "r = R * ((D - R) / (D + R))"
proof -
  have D: "0 < D" "0 < R + D" "R + D \<noteq> 0" "D \<noteq> 0" using assms by simp_all
  show r: "r = R * ((D - R) / (D + R))"
    by (simp add: r_def power2_eq_square algebra_simps)
  show "0 < r" using assms(1,2) D unfolding r by simp
  have rem: "D - R - r = D * ((D - R) / (D + R))"
    using D unfolding r by (simp add: field_simps)
  have q: "0 < (D - R) / (D + R)" using assms(1,2) by simp
  show "r < D - R - r"
    unfolding rem unfolding r by (rule mult_strict_right_mono [OF assms(2) q])
  then have "R + r < D" using \<open>0 < r\<close> by linarith
  then show "(R + r) / D < 1" using D by simp
  have "R * ((D - R) / (D + R)) / (D * ((D - R) / (D + R))) = R / D"
    using assms(1,2) by simp
  then show "r / (D - R - r) = R / D"
    unfolding rem unfolding r .
qed

lemma branch_step:
  assumes st: "branch_state vert auxCirc auxDist"
  defines "r \<equiv> (radius auxCirc * auxDist - (radius auxCirc)\<^sup>2) / (radius auxCirc + auxDist)"
  defines "circle \<equiv> circle_of
     (fst (center auxCirc) + ((radius auxCirc + r) / auxDist) * (fst vert - fst (center auxCirc)),
      snd (center auxCirc) + ((radius auxCirc + r) / auxDist) * (snd vert - snd (center auxCirc))) r"
  shows "candidate_radius auxCirc auxDist = Inr r"
    and "place_circle auxCirc auxDist vert r = Inr circle"
    and "0 < r"
    and "euclidean_distance vert (center circle) = auxDist - radius auxCirc - r"
    and "branch_state vert circle (euclidean_distance vert (center circle))"
    and "r / euclidean_distance vert (center circle) = radius auxCirc / auxDist"
proof -
  have R: "0 < radius auxCirc" "radius auxCirc < auxDist"
    and D: "auxDist = euclidean_distance vert (center auxCirc)"
    using st by (simp_all add: branch_state_def valid_circle_def)
  note ar = step_arith [OF R, folded r_def]
  have D0: "0 < auxDist" "auxDist \<noteq> 0" "radius auxCirc + auxDist \<noteq> 0" using R by simp_all
  show "candidate_radius auxCirc auxDist = Inr r"
    using D0 by (simp add: candidate_radius_def py_div_def r_def)
  show "0 < r" by (rule ar(1))
  then show "place_circle auxCirc auxDist vert r = Inr circle"
    using D0 by (simp add: place_circle_def Let_def py_div_def Circle_init_def circle_def)
  have "euclidean_distance vert (center circle)
        = \<bar>1 - (radius auxCirc + r) / auxDist\<bar> * auxDist"
    unfolding circle_def circle_of_sel D [symmetric, THEN sym]
    using euclidean_distance_scaled [of vert "center auxCirc" "(radius auxCirc + r) / auxDist"]
    by (simp add: D)
  also have "\<dots> = (1 - (radius auxCirc + r) / auxDist) * auxDist"
    using ar(3) by simp
  also have "\<dots> = auxDist - radius auxCirc - r"
    using D0 by (simp add: field_simps)
  finally show dist: "euclidean_distance vert (center circle) = auxDist - radius auxCirc - r" .
  have "valid_circle circle"
    using ar(1) by (simp add: circle_def valid_circle_of)
  moreover have "radius circle < euclidean_distance vert (center circle)"
    unfolding dist using ar(2) by (simp add: circle_def)
  ultimately show "branch_state vert circle (euclidean_distance vert (center circle))"
    by (simp add: branch_state_def)
  show "r / euclidean_distance vert (center circle) = radius auxCirc / auxDist"
    unfolding dist by (rule ar(4))
qed

text \<open>From such a state a pass of the depth loop places its nine circles and fails nowhere.\<close>

lemma depthStep_total:
  assumes st: "branch_state vert auxCirc auxDist"
  shows "\<exists>circs circle. depthStep vert auxCirc auxDist
             = Inr (circs, euclidean_distance vert (center circle), circle)
           \<and> length circs = 9
           \<and> branch_state vert circle (euclidean_distance vert (center circle))"
proof -
  define r where "r = (radius auxCirc * auxDist - (radius auxCirc)\<^sup>2) / (radius auxCirc + auxDist)"
  define circle where "circle = circle_of
     (fst (center auxCirc) + ((radius auxCirc + r) / auxDist) * (fst vert - fst (center auxCirc)),
      snd (center auxCirc) + ((radius auxCirc + r) / auxDist) * (snd vert - snd (center auxCirc))) r"
  note bs = branch_step [OF st, folded r_def, folded circle_def]
  have va: "valid_circle auxCirc" using st by (simp add: branch_state_def)
  have vc: "valid_circle circle" using bs(5) by (simp add: branch_state_def)
  obtain c31 c32 where d3: "descartesTheorem auxCirc circle None = Inr (c31, c32)"
    and v3: "valid_circle c31" "valid_circle c32"
    using descartesTheorem_total [of auxCirc circle None] va vc
    by (auto simp: valid_circle_of)
  obtain c41 c42 where d4: "descartesTheorem auxCirc circle (Some c31) = Inr (c41, c42)"
    using descartesTheorem_total [of auxCirc circle "Some c31"] va vc v3 by auto
  obtain c51 c52 where d5: "descartesTheorem circle c31 None = Inr (c51, c52)"
    using descartesTheorem_total [of circle c31 None] vc v3 by auto
  obtain c61 c62 where d6: "descartesTheorem circle c32 None = Inr (c61, c62)"
    using descartesTheorem_total [of circle c32 None] vc v3 by auto
  obtain c71 c72 where d7: "descartesTheorem auxCirc c31 None = Inr (c71, c72)"
    using descartesTheorem_total [of auxCirc c31 None] va v3 by auto
  obtain c81 c82 where d8: "descartesTheorem auxCirc c32 None = Inr (c81, c82)"
    using descartesTheorem_total [of auxCirc c32 None] va v3 by auto
  have "depthStep vert auxCirc auxDist
          = Inr ([circle, c31, c32, c41, c42, c52, c61, c71, c82],
                 euclidean_distance vert (center circle), circle)"
    by (simp add: depthStep_def bs(1,2) d3 d4 d5 d6 d7 d8)
  then show ?thesis using bs(5) by simp
qed

text \<open>
  A pass of the length loop either stops, when the diameter of the candidate is not above
  \<open>lenght\<close>, or places its three circles.
\<close>

lemma lengthStep_total:
  assumes st: "branch_state vert auxCirc auxDist"
  defines "r \<equiv> (radius auxCirc * auxDist - (radius auxCirc)\<^sup>2) / (radius auxCirc + auxDist)"
  shows "(2 * r \<le> lenght \<and> lengthStep vert lenght auxCirc auxDist = Inr None)
       \<or> (\<not> 2 * r \<le> lenght \<and>
           (\<exists>circs circle. lengthStep vert lenght auxCirc auxDist
                = Inr (Some (circs, euclidean_distance vert (center circle), circle))
              \<and> length circs = 3 \<and> radius circle = r
              \<and> branch_state vert circle (euclidean_distance vert (center circle))
              \<and> radius circle / euclidean_distance vert (center circle)
                   = radius auxCirc / auxDist))"
proof -
  define circle where "circle = circle_of
     (fst (center auxCirc) + ((radius auxCirc + r) / auxDist) * (fst vert - fst (center auxCirc)),
      snd (center auxCirc) + ((radius auxCirc + r) / auxDist) * (snd vert - snd (center auxCirc))) r"
  note bs = branch_step [OF st, folded r_def, folded circle_def]
  have va: "valid_circle auxCirc" using st by (simp add: branch_state_def)
  have vc: "valid_circle circle" using bs(5) by (simp add: branch_state_def)
  have rc: "radius circle = r" by (simp add: circle_def)
  obtain c31 c32 where d3: "descartesTheorem auxCirc circle None = Inr (c31, c32)"
    using descartesTheorem_total [of auxCirc circle None] va vc by auto
  show ?thesis
  proof (cases "2 * r \<le> lenght")
    case True
    then show ?thesis by (simp add: lengthStep_def bs(1))
  next
    case False
    then have "lengthStep vert lenght auxCirc auxDist
        = Inr (Some ([circle, c31, c32], euclidean_distance vert (center circle), circle))"
      by (simp add: lengthStep_def bs(1,2) d3)
    then show ?thesis using False bs(5,6) rc by auto
  qed
qed

section \<open>Claims on the placement of a circle\<close>

text \<open>
  C3. In both stopping modes, a pass that places a circle from the current circle of radius
  \<open>R\<close> and centre \<open>O\<close> towards the vertex \<open>V\<close> at working distance \<open>D\<close> gives the new
  circle the radius \<open>r = (R * D - R\<^sup>2) / (R + D)\<close> and the centre
  \<open>O + ((R + r) / D) * (V - O)\<close>; the circle is the first one appended and the current
  circle of the next pass, and the working distance of the next pass is the Euclidean
  distance from \<open>V\<close> to the new centre.
\<close>

theorem C3_new_circle_placement:
  assumes "depthStep vert auxCirc auxDist = Inr (circs, auxDist', circle)
         \<or> lengthStep vert lenght auxCirc auxDist = Inr (Some (circs, auxDist', circle))"
  shows "radius circle = (radius auxCirc * auxDist - (radius auxCirc)\<^sup>2) / (radius auxCirc + auxDist)
       \<and> center circle =
           (fst (center auxCirc)
              + ((radius auxCirc + radius circle) / auxDist) * (fst vert - fst (center auxCirc)),
            snd (center auxCirc)
              + ((radius auxCirc + radius circle) / auxDist) * (snd vert - snd (center auxCirc)))
       \<and> auxDist' = euclidean_distance vert (center circle)
       \<and> hd circs = circle"
proof -
  from assms obtain r where r: "candidate_radius auxCirc auxDist = Inr r"
    and p: "place_circle auxCirc auxDist vert r = Inr circle"
    and d: "auxDist' = euclidean_distance vert (center circle)" and h: "hd circs = circle"
    using depthStep_Inr lengthStep_Inr by blast
  note c = place_circle_Inr [OF p]
  have "radius circle = r" by (subst c) simp
  moreover have "center circle =
           (fst (center auxCirc) + ((radius auxCirc + r) / auxDist) * (fst vert - fst (center auxCirc)),
            snd (center auxCirc) + ((radius auxCirc + r) / auxDist) * (snd vert - snd (center auxCirc)))"
    by (subst c) simp
  ultimately show ?thesis using candidate_radius_Inr [OF r] d h by simp
qed

text \<open>
  The witness: from the unit circle at the origin towards the vertex (5/3, 0) at distance
  5/3, both modes (the length mode with \<open>lenght = 1/4\<close>) place the circle of radius 1/4
  around (5/4, 0), and the distance left is 5/12.
\<close>

theorem C3_new_circle_placement_witness:
  "(\<exists>circs. depthStep (5 / 3, 0) (circle_of (0, 0) 1) (5 / 3)
             = Inr (circs, 5 / 12, circle_of (5 / 4, 0) (1 / 4)) \<and> hd circs = circle_of (5 / 4, 0) (1 / 4))
 \<and> (\<exists>circs. lengthStep (5 / 3, 0) (1 / 4) (circle_of (0, 0) 1) (5 / 3)
             = Inr (Some (circs, 5 / 12, circle_of (5 / 4, 0) (1 / 4)))
             \<and> hd circs = circle_of (5 / 4, 0) (1 / 4))"
proof -
  let ?V = "(5 / 3, 0) :: point" and ?C = "circle_of (0, 0) 1"
  have s: "sqrt (25 / 9) = 5 / 3"
    by (rule sqrt_eqI) (simp_all add: power2_eq_square)
  have st: "branch_state ?V ?C (5 / 3)"
    by (simp add: branch_state_def valid_circle_of euclidean_distance_def power2_eq_square s)
  obtain circs circle where
    d: "depthStep ?V ?C (5 / 3) = Inr (circs, euclidean_distance ?V (center circle), circle)"
    using depthStep_total [OF st] by blast
  note d3 = C3_new_circle_placement [where lenght = "1 / 4", OF disjI1 [OF d]]
  have dr: "radius circle = 1 / 4" using d3 by (simp add: power2_eq_square)
  have dc: "center circle = (5 / 4, 0)" using d3 dr by simp
  obtain circs' circle' where
    l: "lengthStep ?V (1 / 4) ?C (5 / 3)
          = Inr (Some (circs', euclidean_distance ?V (center circle'), circle'))"
    using lengthStep_total [OF st, of "1 / 4"] by (auto simp: power2_eq_square)
  note l3 = C3_new_circle_placement [OF disjI2 [OF l]]
  have lr: "radius circle' = 1 / 4" using l3 by (simp add: power2_eq_square)
  have lc: "center circle' = (5 / 4, 0)" using l3 lr by simp
  have s2: "sqrt (25 / 144) = 5 / 12"
    by (rule sqrt_eqI) (simp_all add: power2_eq_square)
  have e: "euclidean_distance ?V (5 / 4, 0) = 5 / 12"
    by (simp add: euclidean_distance_def power2_eq_square s2)
  have ceq: "circle = circle_of (5 / 4, 0) (1 / 4)"
    using depthStep_Inr [OF d] place_circle_Inr dr dc by (metis circle_of_sel(1,2))
  have ceq': "circle' = circle_of (5 / 4, 0) (1 / 4)"
    using lengthStep_Inr [OF l] place_circle_Inr lr lc by (metis circle_of_sel(1,2))
  show ?thesis
    using d l d3 l3 e unfolding ceq ceq' by simp
qed

section \<open>The loops\<close>

lemma vertexLoop_depth_zero: "vertexLoop inc (Some 0) None vs lst = Some (Inr lst)"
  by (induction vs arbitrary: lst) auto

text \<open>Neither mode is entered when both or none of depth and length are given, or the depth is negative.\<close>

lemma vertexLoop_no_mode:
  assumes "\<not> (depth = None \<and> lenght \<noteq> None)"
    and "\<not> (lenght = None \<and> depth \<noteq> None \<and> the depth \<ge> 0)"
  shows "vertexLoop inc depth lenght vs lst = Some (Inr lst)"
  using assms by (induction vs arbitrary: lst) auto

text \<open>The cached list of an earlier call is not read.\<close>

lemma circInTriangle_ignores_cache:
  "circInTriangle (self\<lparr>lstCirc := x\<rparr>) depth lenght want2plot length'
     = circInTriangle self depth lenght want2plot length'"
  by (simp add: circInTriangle_def split: sum.splits option.splits)

lemma circInTriangle_Inr:
  assumes "circInTriangle self depth lenght want2plot length' = Some (Inr (ret, self'))"
  shows "\<exists>lst. self' = self\<lparr>lstCirc := Some lst\<rparr>
           \<and> ret = (if want2plot then None else Some lst)
           \<and> (\<forall>w. circInTriangle self depth lenght w length'
                   = Some (Inr (if w then None else Some lst, self')))"
  using assms
  by (auto simp: circInTriangle_def split: sum.splits option.splits)

section \<open>Claims on the result of a call\<close>

text \<open>
  C4. With \<open>depth = 0\<close> and no length the call returns the list that holds the incircle
  and nothing else (and keeps that list in \<^verbatim>\<open>lstCirc\<close>); this holds for every triangle.
\<close>

theorem C4_depth_zero_is_incircle:
  "circInTriangle self (Some 0) None False None
     = Some (Inr (Some [incircle self], self\<lparr>lstCirc := Some [incircle self]\<rparr>))"
  by (simp add: circInTriangle_def resolve_length_def vertexLoop_depth_zero)

section \<open>The incircle lies off the vertices\<close>

text \<open>
  For vectors \<open>u\<close>, \<open>v\<close> of lengths \<open>m\<close>, \<open>n\<close> that are not parallel, the vector
  \<open>n * u + m * v\<close> is longer than the cross product of \<open>u\<close> and \<open>v\<close> is large. With the
  two sides at a vertex for \<open>u\<close> and \<open>v\<close> this says that the incentre is farther from the
  vertex than the inradius.
\<close>

lemma bisector_longer:
  fixes ux uy vx vy m n :: real
  assumes m: "m\<^sup>2 = ux\<^sup>2 + uy\<^sup>2" and n: "n\<^sup>2 = vx\<^sup>2 + vy\<^sup>2"
    and cross: "ux * vy - uy * vx \<noteq> 0"
  shows "(ux * vy - uy * vx)\<^sup>2 < (n * ux + m * vx)\<^sup>2 + (n * uy + m * vy)\<^sup>2"
proof -
  define dot where "dot = ux * vx + uy * vy"
  have lagrange: "(ux * vy - uy * vx)\<^sup>2 = m\<^sup>2 * n\<^sup>2 - dot\<^sup>2"
    unfolding m n dot_def by (simp add: power2_eq_square algebra_simps)
  have "(n * ux + m * vx)\<^sup>2 + (n * uy + m * vy)\<^sup>2
          = n\<^sup>2 * (ux\<^sup>2 + uy\<^sup>2) + m\<^sup>2 * (vx\<^sup>2 + vy\<^sup>2) + 2 * (m * n) * dot"
    unfolding dot_def by (simp add: power2_eq_square algebra_simps)
  also have "\<dots> = 2 * (m\<^sup>2 * n\<^sup>2) + 2 * (m * n) * dot"
    unfolding m [symmetric] n [symmetric] by (simp add: algebra_simps)
  finally have lhs: "(n * ux + m * vx)\<^sup>2 + (n * uy + m * vy)\<^sup>2
          = 2 * (m\<^sup>2 * n\<^sup>2) + 2 * (m * n) * dot" .
  have diff: "(n * ux + m * vx)\<^sup>2 + (n * uy + m * vy)\<^sup>2 - (ux * vy - uy * vx)\<^sup>2
          = (m * n + dot)\<^sup>2"
    unfolding lhs lagrange by (simp add: power2_eq_square algebra_simps)
  have "m * n + dot \<noteq> 0"
  proof
    assume "m * n + dot = 0"
    then have "dot = - (m * n)" by simp
    then have "dot\<^sup>2 = m\<^sup>2 * n\<^sup>2" by (simp add: power_mult_distrib)
    with lagrange have "(ux * vy - uy * vx)\<^sup>2 = 0" by simp
    with cross show False by simp
  qed
  then have "0 < (m * n + dot)\<^sup>2" by simp
  with diff show ?thesis by linarith
qed

lemma inradius_less:
  fixes p S X Y :: real
  assumes "0 < p" and "S\<^sup>2 < X\<^sup>2 + Y\<^sup>2"
  shows "\<bar>S\<bar> / p < sqrt ((X / p)\<^sup>2 + (Y / p)\<^sup>2)"
proof -
  have "\<bar>S\<bar> = sqrt (S\<^sup>2)" by simp
  also have "\<dots> < sqrt (X\<^sup>2 + Y\<^sup>2)" using assms(2) by (simp only: real_sqrt_less_iff)
  finally have "\<bar>S\<bar> / p < sqrt (X\<^sup>2 + Y\<^sup>2) / p"
    using assms(1) by (simp add: divide_strict_right_mono)
  also have "sqrt (X\<^sup>2 + Y\<^sup>2) / p = sqrt ((X / p)\<^sup>2 + (Y / p)\<^sup>2)"
  proof -
    have "(X / p)\<^sup>2 + (Y / p)\<^sup>2 = (X\<^sup>2 + Y\<^sup>2) / p\<^sup>2"
      by (simp add: power_divide add_divide_distrib)
    then show ?thesis using assms(1) by (simp add: real_sqrt_divide)
  qed
  finally show ?thesis .
qed

section \<open>The triangle that the constructor builds\<close>

lemma getGeomProperties_short:
  "getGeomProperties [] = Inl IndexError"
  "getGeomProperties [(CHR ''A'', p)] = Inl KeyError"
  "getGeomProperties [(CHR ''A'', p), (CHR ''B'', q)] = Inl KeyError"
  by (simp_all add: getGeomProperties_def Let_def)

text \<open>The constructor succeeds only with three rows at least, and reads the first three.\<close>

lemma Triangle_init_three:
  assumes "Triangle_init coordinates = Inr t"
  shows "\<exists>pA pB pC rest. coordinates = pA # pB # pC # rest
           \<and> getGeomProperties [(CHR ''A'', pA), (CHR ''B'', pB), (CHR ''C'', pC)] = Inr t"
proof (cases coordinates)
  case Nil
  then show ?thesis using assms by (simp add: Triangle_init_def getGeomProperties_short)
next
  case c1: (Cons pA r1)
  show ?thesis
  proof (cases r1)
    case Nil
    then show ?thesis using assms c1 by (simp add: Triangle_init_def getGeomProperties_short)
  next
    case c2: (Cons pB r2)
    show ?thesis
    proof (cases r2)
      case Nil
      then show ?thesis using assms c1 c2 by (simp add: Triangle_init_def getGeomProperties_short)
    next
      case (Cons pC r3)
      then show ?thesis using assms c1 c2 by (simp add: Triangle_init_def)
    qed
  qed
qed

lemma gauss_terms_three:
  "sum_list (gauss_terms [pA, pB, pC, pA])
     = fst pA * snd pB - snd pA * fst pB
       + (fst pB * snd pC - snd pB * fst pC + (fst pC * snd pA - snd pC * fst pA))"
  by (simp add: gauss_terms_def)

text \<open>The fields of a triangle that was built from the vertices \<open>pA\<close>, \<open>pB\<close>, \<open>pC\<close>.\<close>

lemma getGeomProperties_three:
  fixes pA pB pC :: point
  defines "a \<equiv> euclidean_distance pB pC"
    and "b \<equiv> euclidean_distance pA pC"
    and "c \<equiv> euclidean_distance pA pB"
  defines "p \<equiv> a + b + c"
  defines "S \<equiv> fst pA * snd pB - snd pA * fst pB
       + (fst pB * snd pC - snd pB * fst pC + (fst pC * snd pA - snd pC * fst pA))"
  defines "cen \<equiv> ((a * fst pA + b * fst pB + c * fst pC) / p,
                  (a * snd pA + b * snd pB + c * snd pC) / p)"
  assumes t: "getGeomProperties [(CHR ''A'', pA), (CHR ''B'', pB), (CHR ''C'', pC)] = Inr t"
  shows "p \<noteq> 0" and "S \<noteq> 0"
    and "incircle t = circle_of cen (\<bar>S\<bar> / p)"
    and "vertices t = [(CHR ''A'', pA), (CHR ''B'', pB), (CHR ''C'', pC)]"
    and "distToIncenter t = [euclidean_distance cen pA, euclidean_distance cen pB,
                             euclidean_distance cen pC]"
    and "tri_area t = \<bar>S\<bar> / 2" and "tri_perimeter t = p"
  using t
  unfolding cen_def p_def a_def b_def c_def S_def
  by (auto simp: getGeomProperties_def Let_def gauss_terms_def Circle_init_def split: if_splits)

lemma euclidean_distance_sq:
  "(euclidean_distance p q)\<^sup>2 = (fst p - fst q)\<^sup>2 + (snd p - snd q)\<^sup>2"
  by (simp add: euclidean_distance_def)

lemma euclidean_distance_nonneg: "0 \<le> euclidean_distance p q"
  by (simp add: euclidean_distance_def)

text \<open>
  In a triangle that the constructor has built, the incircle has a positive radius and
  every vertex is farther from the incentre than that radius: the packing starts each of
  its three branches in a proper state.
\<close>

lemma incircle_branch_states:
  fixes pA pB pC :: point
  assumes t: "getGeomProperties [(CHR ''A'', pA), (CHR ''B'', pB), (CHR ''C'', pC)] = Inr t"
  shows "\<exists>dA dB dC. map snd (vertices t) = [pA, pB, pC] \<and> distToIncenter t = [dA, dB, dC]
           \<and> branch_state pA (incircle t) dA
           \<and> branch_state pB (incircle t) dB
           \<and> branch_state pC (incircle t) dC"
proof -
  define a where "a = euclidean_distance pB pC"
  define b where "b = euclidean_distance pA pC"
  define c where "c = euclidean_distance pA pB"
  define p where "p = a + b + c"
  define S where "S = fst pA * snd pB - snd pA * fst pB
       + (fst pB * snd pC - snd pB * fst pC + (fst pC * snd pA - snd pC * fst pA))"
  define cx where "cx = (a * fst pA + b * fst pB + c * fst pC) / p"
  define cy where "cy = (a * snd pA + b * snd pB + c * snd pC) / p"
  note g = getGeomProperties_three [OF t, folded a_def b_def c_def, folded p_def S_def,
      folded cx_def cy_def]
  have a2: "a\<^sup>2 = (fst pB - fst pC)\<^sup>2 + (snd pB - snd pC)\<^sup>2"
    and b2: "b\<^sup>2 = (fst pA - fst pC)\<^sup>2 + (snd pA - snd pC)\<^sup>2"
    and c2: "c\<^sup>2 = (fst pA - fst pB)\<^sup>2 + (snd pA - snd pB)\<^sup>2"
    by (simp_all add: a_def b_def c_def euclidean_distance_sq)
  have "0 \<le> a" "0 \<le> b" "0 \<le> c"
    by (simp_all add: a_def b_def c_def euclidean_distance_nonneg)
  then have "0 \<le> p" by (simp add: p_def)
  with g(1) have p: "0 < p" by simp
  have S: "S \<noteq> 0" by (rule g(2))
  have inc: "incircle t = circle_of (cx, cy) (\<bar>S\<bar> / p)" by (rule g(3))
  have valid: "valid_circle (incircle t)"
    unfolding inc using p S by (simp add: valid_circle_of)
  \<comment> \<open>vertex A, between the sides to B and to C\<close>
  have xA: "fst pA - cx = - ((b * (fst pB - fst pA) + c * (fst pC - fst pA)) / p)"
    and yA: "snd pA - cy = - ((b * (snd pB - snd pA) + c * (snd pC - snd pA)) / p)"
    using p by (simp_all add: cx_def cy_def p_def field_simps)
  have crossA: "(fst pB - fst pA) * (snd pC - snd pA) - (snd pB - snd pA) * (fst pC - fst pA) = S"
    by (simp add: S_def algebra_simps)
  have "S\<^sup>2 < (b * (fst pB - fst pA) + c * (fst pC - fst pA))\<^sup>2
             + (b * (snd pB - snd pA) + c * (snd pC - snd pA))\<^sup>2"
    using bisector_longer [of c "fst pB - fst pA" "snd pB - snd pA" b
                               "fst pC - fst pA" "snd pC - snd pA"] S
    unfolding crossA by (simp add: b2 c2 power2_commute)
  from inradius_less [OF p this]
  have farA: "\<bar>S\<bar> / p < euclidean_distance pA (cx, cy)"
    by (simp add: euclidean_distance_def xA yA)
  \<comment> \<open>vertex B, between the sides to A and to C\<close>
  have xB: "fst pB - cx = - ((a * (fst pA - fst pB) + c * (fst pC - fst pB)) / p)"
    and yB: "snd pB - cy = - ((a * (snd pA - snd pB) + c * (snd pC - snd pB)) / p)"
    using p by (simp_all add: cx_def cy_def p_def field_simps)
  have crossB: "(fst pA - fst pB) * (snd pC - snd pB) - (snd pA - snd pB) * (fst pC - fst pB) = - S"
    by (simp add: S_def algebra_simps)
  have "(- S)\<^sup>2 < (a * (fst pA - fst pB) + c * (fst pC - fst pB))\<^sup>2
             + (a * (snd pA - snd pB) + c * (snd pC - snd pB))\<^sup>2"
    using bisector_longer [of c "fst pA - fst pB" "snd pA - snd pB" a
                               "fst pC - fst pB" "snd pC - snd pB"] S
    unfolding crossB by (simp add: a2 c2 power2_commute)
  then have "S\<^sup>2 < (a * (fst pA - fst pB) + c * (fst pC - fst pB))\<^sup>2
             + (a * (snd pA - snd pB) + c * (snd pC - snd pB))\<^sup>2"
    by simp
  from inradius_less [OF p this]
  have farB: "\<bar>S\<bar> / p < euclidean_distance pB (cx, cy)"
    by (simp add: euclidean_distance_def xB yB)
  \<comment> \<open>vertex C, between the sides to A and to B\<close>
  have xC: "fst pC - cx = - ((a * (fst pA - fst pC) + b * (fst pB - fst pC)) / p)"
    and yC: "snd pC - cy = - ((a * (snd pA - snd pC) + b * (snd pB - snd pC)) / p)"
    using p by (simp_all add: cx_def cy_def p_def field_simps)
  have crossC: "(fst pA - fst pC) * (snd pB - snd pC) - (snd pA - snd pC) * (fst pB - fst pC) = S"
    by (simp add: S_def algebra_simps)
  have "S\<^sup>2 < (a * (fst pA - fst pC) + b * (fst pB - fst pC))\<^sup>2
             + (a * (snd pA - snd pC) + b * (snd pB - snd pC))\<^sup>2"
    using bisector_longer [of b "fst pA - fst pC" "snd pA - snd pC" a
                               "fst pB - fst pC" "snd pB - snd pC"] S
    unfolding crossC by (simp add: a2 b2 power2_commute)
  from inradius_less [OF p this]
  have farC: "\<bar>S\<bar> / p < euclidean_distance pC (cx, cy)"
    by (simp add: euclidean_distance_def xC yC)
  have z: "map snd (vertices t) = [pA, pB, pC]"
    "distToIncenter t = [euclidean_distance (cx, cy) pA, euclidean_distance (cx, cy) pB,
                         euclidean_distance (cx, cy) pC]"
    by (simp_all add: g(4,5))
  have "branch_state pA (incircle t) (euclidean_distance (cx, cy) pA)"
    "branch_state pB (incircle t) (euclidean_distance (cx, cy) pB)"
    "branch_state pC (incircle t) (euclidean_distance (cx, cy) pC)"
    using valid farA farB farC
    by (simp_all add: branch_state_def inc euclidean_distance_commute [of "(cx, cy)"])
  with z show ?thesis by simp
qed

section \<open>The depth mode\<close>





section \<open>Claims on the depth mode\<close>


text \<open>The constructor builds the triangle \<open>triangle_345\<close> from its three vertices.\<close>

lemma Triangle_init_345: "Triangle_init [(0, 0), (4, 0), (0, 3)] = Inr triangle_345"
proof -
  have s: "sqrt 25 = 5" "sqrt 16 = 4" "sqrt 9 = 3"
    by (rule sqrt_eqI; simp)+
  show ?thesis
    by (simp add: Triangle_init_def getGeomProperties_def Let_def gauss_terms_def
          euclidean_distance_def Circle_init_def s triangle_345_def)
qed


section \<open>The length mode\<close>

text \<open>
  The ratio of radius to distance stays the same along a branch, so the candidate radii go
  down by the fixed factor \<open>(D - R) / (D + R) < 1\<close>, and the loop stops once the diameter
  is not above \<open>lenght\<close>.
\<close>

lemma shrink_factor:
  fixes R D :: real
  assumes "0 < D"
  shows "(D - R) / (D + R) = (1 - R / D) / (1 + R / D)"
proof -
  have "(1 - R / D) / (1 + R / D) = ((D - R) / D) / ((D + R) / D)"
    using assms by (simp add: field_simps)
  also have "\<dots> = (D - R) / (D + R)"
    using assms by simp
  finally show ?thesis by simp
qed

lemma lengthLoop_bounded:
  assumes "branch_state vert auxCirc auxDist"
    and "radius auxCirc / auxDist = s"
    and "2 * radius auxCirc * ((1 - s) / (1 + s)) ^ n \<le> lenght"
  shows "\<exists>circs k. lengthLoop vert lenght auxCirc auxDist lst = Some (Inr (lst @ circs))
           \<and> length circs = 3 * k"
  using assms
proof (induction n arbitrary: auxCirc auxDist lst)
  case 0
  let ?r = "(radius auxCirc * auxDist - (radius auxCirc)\<^sup>2) / (radius auxCirc + auxDist)"
  have R: "0 < radius auxCirc" "radius auxCirc < auxDist"
    using "0.prems"(1) by (simp_all add: branch_state_def valid_circle_def)
  have "?r < auxDist - radius auxCirc - ?r" "0 < ?r"
    using step_arith [OF R] by simp_all
  moreover have "?r = radius auxCirc * ((auxDist - radius auxCirc) / (auxDist + radius auxCirc))"
    by (rule step_arith(5) [OF R])
  moreover have "(auxDist - radius auxCirc) / (auxDist + radius auxCirc) \<le> 1"
    using R by simp
  ultimately have "?r \<le> radius auxCirc"
    using R(1) by (metis mult.right_neutral mult_left_mono less_imp_le)
  moreover have "2 * radius auxCirc \<le> lenght" using "0.prems"(3) by simp
  ultimately have "2 * ?r \<le> lenght" by linarith
  with lengthStep_total [OF "0.prems"(1), of lenght]
  have "lengthStep vert lenght auxCirc auxDist = Inr None" by auto
  then have "lengthLoop vert lenght auxCirc auxDist lst = Some (Inr (lst @ []))
               \<and> length ([] :: Circle list) = 3 * 0"
    by (subst lengthLoop.simps) simp
  then show ?case by blast
next
  case (Suc n)
  let ?r = "(radius auxCirc * auxDist - (radius auxCirc)\<^sup>2) / (radius auxCirc + auxDist)"
  have R: "0 < radius auxCirc" "radius auxCirc < auxDist"
    using Suc.prems(1) by (simp_all add: branch_state_def valid_circle_def)
  have q: "(auxDist - radius auxCirc) / (auxDist + radius auxCirc) = (1 - s) / (1 + s)"
    using shrink_factor [of auxDist "radius auxCirc"] R Suc.prems(2) by simp
  have r: "?r = radius auxCirc * ((1 - s) / (1 + s))"
    using step_arith(5) [OF R] q by simp
  from lengthStep_total [OF Suc.prems(1), of lenght]
  consider (stop) "lengthStep vert lenght auxCirc auxDist = Inr None"
    | (go) circs circle where
        "lengthStep vert lenght auxCirc auxDist
           = Inr (Some (circs, euclidean_distance vert (center circle), circle))"
        "length circs = 3" "radius circle = ?r"
        "branch_state vert circle (euclidean_distance vert (center circle))"
        "radius circle / euclidean_distance vert (center circle) = radius auxCirc / auxDist"
    by blast
  then show ?case
  proof cases
    case stop
    then have "lengthLoop vert lenght auxCirc auxDist lst = Some (Inr (lst @ []))
               \<and> length ([] :: Circle list) = 3 * 0"
      by (subst lengthLoop.simps) simp
    then show ?thesis by blast
  next
    case go
    have "2 * radius circle * ((1 - s) / (1 + s)) ^ n \<le> lenght"
      using Suc.prems(3) by (simp add: go(3) r mult.assoc)
    from Suc.IH [OF go(4) _ this, of "lst @ circs"] go(5) Suc.prems(2)
    obtain circs' k where
      rest: "lengthLoop vert lenght circle (euclidean_distance vert (center circle)) (lst @ circs)
               = Some (Inr ((lst @ circs) @ circs'))"
      and k: "length circs' = 3 * k"
      by auto
    have "lengthLoop vert lenght auxCirc auxDist lst = Some (Inr (lst @ (circs @ circs')))
            \<and> length (circs @ circs') = 3 * Suc k"
      using rest k go(1,2) by (subst lengthLoop.simps) simp
    then show ?thesis by blast
  qed
qed

text \<open>With a positive \<open>lenght\<close> such a bound exists, so the loop ends.\<close>

lemma lengthLoop_total:
  assumes st: "branch_state vert auxCirc auxDist" and l: "0 < lenght"
  shows "\<exists>circs k. lengthLoop vert lenght auxCirc auxDist lst = Some (Inr (lst @ circs))
           \<and> length circs = 3 * k"
proof -
  define s where "s = radius auxCirc / auxDist"
  have R: "0 < radius auxCirc" "radius auxCirc < auxDist"
    using st by (simp_all add: branch_state_def valid_circle_def)
  then have s: "0 < s" "s < 1" by (simp_all add: s_def)
  then have q: "0 \<le> (1 - s) / (1 + s)" "(1 - s) / (1 + s) < 1" by simp_all
  have "0 < lenght / (2 * radius auxCirc)" using l R by simp
  from real_arch_pow_inv [OF this q(2)] obtain n
    where "((1 - s) / (1 + s)) ^ n < lenght / (2 * radius auxCirc)" by blast
  then have "2 * radius auxCirc * ((1 - s) / (1 + s)) ^ n \<le> lenght"
    using R by (simp add: field_simps)
  from lengthLoop_bounded [OF st s_def [symmetric] this] show ?thesis .
qed


lemma length_mode_vertexLoop:
  assumes "Triangle_init coordinates = Inr self" and "0 < l"
  shows "\<exists>circs k. vertexLoop (incircle self) None (Some l)
                      (zip (map snd (vertices self)) (distToIncenter self)) [incircle self]
                    = Some (Inr (incircle self # circs))
                  \<and> length circs = 3 * k"
proof -
  from Triangle_init_three [OF assms(1)] obtain pA pB pC
    where g: "getGeomProperties [(CHR ''A'', pA), (CHR ''B'', pB), (CHR ''C'', pC)] = Inr self"
    by blast
  from incircle_branch_states [OF g] obtain dA dB dC
    where vs: "map snd (vertices self) = [pA, pB, pC]" and ds: "distToIncenter self = [dA, dB, dC]"
      and st: "branch_state pA (incircle self) dA" "branch_state pB (incircle self) dB"
        "branch_state pC (incircle self) dC"
    by auto
  obtain cA kA where A: "lengthLoop pA l (incircle self) dA [incircle self]
        = Some (Inr ([incircle self] @ cA))" and lA: "length cA = 3 * kA"
    using lengthLoop_total [OF st(1) assms(2)] by blast
  obtain cB kB where B: "lengthLoop pB l (incircle self) dB ([incircle self] @ cA)
        = Some (Inr (([incircle self] @ cA) @ cB))" and lB: "length cB = 3 * kB"
    using lengthLoop_total [OF st(2) assms(2)] by blast
  obtain cC kC where C: "lengthLoop pC l (incircle self) dC (([incircle self] @ cA) @ cB)
        = Some (Inr ((([incircle self] @ cA) @ cB) @ cC))" and lC: "length cC = 3 * kC"
    using lengthLoop_total [OF st(3) assms(2)] by blast
  have "vertexLoop (incircle self) None (Some l) [(pA, dA), (pB, dB), (pC, dC)] [incircle self]
          = Some (Inr (incircle self # (cA @ cB @ cC)))"
    using A B C by simp
  moreover have "length (cA @ cB @ cC) = 3 * (kA + kB + kC)"
    using lA lB lC by simp
  ultimately have "vertexLoop (incircle self) None (Some l)
                      (zip (map snd (vertices self)) (distToIncenter self)) [incircle self]
                    = Some (Inr (incircle self # (cA @ cB @ cC)))
                  \<and> length (cA @ cB @ cC) = 3 * (kA + kB + kC)"
    unfolding vs ds by simp
  then show ?thesis by blast
qed

section \<open>Claims on the length mode\<close>



section \<open>Claims on the cached list and the plot flag\<close>

lemma circInTriangle_length_returns:
  assumes "Triangle_init coordinates = Inr self" and "0 < l"
  shows "\<exists>lst. circInTriangle self None (Some l) w None
            = Some (Inr (if w then None else Some lst, self\<lparr>lstCirc := Some lst\<rparr>))"
proof -
  from length_mode_vertexLoop [OF assms] obtain circs
    where "vertexLoop (incircle self) None (Some l)
             (zip (map snd (vertices self)) (distToIncenter self)) [incircle self]
           = Some (Inr (incircle self # circs))"
    by blast
  then have "circInTriangle self None (Some l) w None
      = Some (Inr (if w then None else Some (incircle self # circs),
                   self\<lparr>lstCirc := Some (incircle self # circs)\<rparr>))"
    by (simp add: circInTriangle_def resolve_length_def)
  then show ?thesis by blast
qed

text \<open>
  C8. When a call has returned, the same call on the triangle it leaves behind (the one
  with the list in \<^verbatim>\<open>lstCirc\<close>) returns the very same value and leaves the same triangle:
  the cached list is not an input of the computation.
\<close>

theorem C8_second_call_same_result:
  assumes "circInTriangle self depth lenght want2plot length' = Some (Inr (ret, self'))"
  shows "circInTriangle self' depth lenght want2plot length' = Some (Inr (ret, self'))
       \<and> lstCirc self' \<noteq> None"
proof -
  from circInTriangle_Inr [OF assms] obtain lst
    where s: "self' = self\<lparr>lstCirc := Some lst\<rparr>" by blast
  have "circInTriangle self' depth lenght want2plot length'
          = circInTriangle self depth lenght want2plot length'"
    unfolding s by (rule circInTriangle_ignores_cache)
  with assms s show ?thesis by simp
qed

theorem C8_second_call_same_result_witness:
  "\<exists>self ret self'. Triangle_init [(0, 0), (4, 0), (0, 3)] = Inr self
     \<and> circInTriangle self None (Some (1 / 4)) False None = Some (Inr (ret, self'))
     \<and> circInTriangle self' None (Some (1 / 4)) False None = Some (Inr (ret, self'))
     \<and> lstCirc self \<noteq> lstCirc self'"
proof -
  obtain self where t: "Triangle_init [(0, 0), (4, 0), (0, 3)] = Inr self"
    and n: "lstCirc self = None"
    using Triangle_init_345 by (auto simp: triangle_345_def)
  obtain lst where c: "circInTriangle self None (Some (1 / 4)) False None
      = Some (Inr (Some lst, self\<lparr>lstCirc := Some lst\<rparr>))"
    using circInTriangle_length_returns [OF t, of "1 / 4" False] by auto
  from C8_second_call_same_result [OF c] t c n show ?thesis by auto
qed

text \<open>
  C9. A call that returns leaves the list in \<^verbatim>\<open>lstCirc\<close>. With \<^verbatim>\<open>want2plot=True\<close> the
  returned value is \<open>None\<close>, with \<^verbatim>\<open>want2plot=False\<close> it is that list; apart from the
  returned value the two calls agree.
\<close>

theorem C9_plot_flag_returns_none:
  assumes "circInTriangle self depth lenght want2plot length' = Some (Inr (ret, self'))"
  shows "\<exists>lst. lstCirc self' = Some lst
           \<and> ret = (if want2plot then None else Some lst)
           \<and> circInTriangle self depth lenght True length' = Some (Inr (None, self'))
           \<and> circInTriangle self depth lenght False length' = Some (Inr (Some lst, self'))"
proof -
  from circInTriangle_Inr [OF assms] obtain lst
    where s: "self' = self\<lparr>lstCirc := Some lst\<rparr>"
      and r: "ret = (if want2plot then None else Some lst)"
      and w: "\<forall>w. circInTriangle self depth lenght w length'
                   = Some (Inr (if w then None else Some lst, self'))"
    by blast
  have "lstCirc self' = Some lst" by (simp add: s)
  moreover have "circInTriangle self depth lenght True length' = Some (Inr (None, self'))"
    using w [THEN spec, of True] by simp
  moreover have "circInTriangle self depth lenght False length' = Some (Inr (Some lst, self'))"
    using w [THEN spec, of False] by simp
  ultimately show ?thesis using r by blast
qed

theorem C9_plot_flag_returns_none_witness:
  "\<exists>self self' lst. Triangle_init [(0, 0), (4, 0), (0, 3)] = Inr self
     \<and> circInTriangle self None (Some (1 / 4)) True None = Some (Inr (None, self'))
     \<and> lstCirc self' = Some lst
     \<and> circInTriangle self None (Some (1 / 4)) False None = Some (Inr (Some lst, self'))"
proof -
  obtain self where t: "Triangle_init [(0, 0), (4, 0), (0, 3)] = Inr self"
    using Triangle_init_345 by blast
  obtain lst where c: "circInTriangle self None (Some (1 / 4)) True None
      = Some (Inr (None, self\<lparr>lstCirc := Some lst\<rparr>))"
    using circInTriangle_length_returns [OF t, of "1 / 4" True] by auto
  from C9_plot_flag_returns_none [OF c] t c show ?thesis by auto
qed

section \<open>Which errors a call can end in\<close>

text \<open>
  The arithmetic of the packing never ends in \<open>ValueError\<close>: its failures are divisions
  by zero and roots of negative numbers.
\<close>

lemma descartesTheorem_no_ValueError: "descartesTheorem a b c = Inl e \<Longrightarrow> e \<noteq> ValueError"
  by (auto simp: descartesTheorem_def descartes_radius_def descartes_centers_def Let_def
        pow_half_def pow_neg1_def Circle_init_def split: option.splits sum.splits if_splits)

lemma candidate_radius_no_ValueError: "candidate_radius c d = Inl e \<Longrightarrow> e \<noteq> ValueError"
  by (auto simp: candidate_radius_def py_div_def split: if_splits)

lemma place_circle_no_ValueError: "place_circle c d v r = Inl e \<Longrightarrow> e \<noteq> ValueError"
  by (auto simp: place_circle_def Let_def py_div_def Circle_init_def split: if_splits)

lemma depthStep_no_ValueError: "depthStep v c d = Inl e \<Longrightarrow> e \<noteq> ValueError"
  by (auto simp: depthStep_def split: sum.splits prod.splits
        dest: descartesTheorem_no_ValueError candidate_radius_no_ValueError
          place_circle_no_ValueError)

lemma lengthStep_no_ValueError: "lengthStep v l c d = Inl e \<Longrightarrow> e \<noteq> ValueError"
  by (auto simp: lengthStep_def split: sum.splits prod.splits if_splits
        dest: descartesTheorem_no_ValueError candidate_radius_no_ValueError
          place_circle_no_ValueError)

lemma depthLoop_no_ValueError: "depthLoop v n c d lst \<noteq> Inl ValueError"
proof (induction n arbitrary: c d lst)
  case 0
  show ?case by simp
next
  case (Suc n)
  show ?case
    using Suc.IH by (auto split: sum.splits prod.splits dest: depthStep_no_ValueError)
qed

lemma lengthLoop_no_ValueError:
  assumes "lengthLoop v l c d lst = Some y"
  shows "y \<noteq> Inl ValueError"
proof (rule lengthLoop.raw_induct [where P = "\<lambda>_ _ _ _ _ y. y \<noteq> Inl ValueError", OF _ assms])
  fix f :: "point \<Rightarrow> real \<Rightarrow> Circle \<Rightarrow> real \<Rightarrow> Circle list \<Rightarrow> (error + Circle list) option"
    and vert lenght auxCirc auxDist lst y
  assume IH: "\<And>vert lenght auxCirc auxDist lst y.
      f vert lenght auxCirc auxDist lst = Some y \<Longrightarrow> y \<noteq> Inl ValueError"
    and eq: "(case lengthStep vert lenght auxCirc auxDist of
        Inl e \<Rightarrow> Some (Inl e)
      | Inr None \<Rightarrow> Some (Inr lst)
      | Inr (Some (circs, auxDist', auxCirc')) \<Rightarrow> f vert lenght auxCirc' auxDist' (lst @ circs))
      = Some y"
  show "y \<noteq> Inl ValueError"
  proof (cases "lengthStep vert lenght auxCirc auxDist")
    case (Inl e)
    then show ?thesis using eq lengthStep_no_ValueError [OF Inl] by auto
  next
    case (Inr s)
    show ?thesis
    proof (cases s)
      case None
      then show ?thesis using eq Inr by auto
    next
      case (Some x)
      then show ?thesis using eq Inr IH by (cases x) auto
    qed
  qed
qed

lemma vertexLoop_no_ValueError: "vertexLoop inc depth lenght vs lst \<noteq> Some (Inl ValueError)"
proof (induction vs arbitrary: lst)
  case Nil
  show ?case by simp
next
  case (Cons a vs)
  obtain v d where a: "a = (v, d)" by (cases a)
  show ?case
  proof (cases "depth = None \<and> lenght \<noteq> None")
    case True
    show ?thesis
    proof (cases "lengthLoop v (the lenght) inc d lst")
      case None
      then show ?thesis using True by (simp add: a)
    next
      case (Some y)
      then show ?thesis
        using True lengthLoop_no_ValueError [OF Some] Cons.IH
        by (cases y) (simp_all add: a)
    qed
  next
    case False
    then show ?thesis
      using Cons.IH depthLoop_no_ValueError [of v "nat (the depth)" inc d lst]
      by (cases "depthLoop v (nat (the depth)) inc d lst") (auto simp: a)
  qed
qed

section \<open>Claims on the configuration errors\<close>

text \<open>
  C6, as the specification states it, asks for a configuration error when both or none of
  depth and length are given and when the depth is negative. The code has no such check:
  on the triangle \<open>triangle_345\<close> the call without depth and length, the call with depth
  2 and length 1/2, and the call with depth -1 all return the list that holds the
  incircle only.
\<close>

theorem C6_no_error_without_mode:
  "Triangle_init [(0, 0), (4, 0), (0, 3)] = Inr triangle_345
   \<and> circInTriangle triangle_345 None None False None
       = Some (Inr (Some [incircle triangle_345],
                    triangle_345\<lparr>lstCirc := Some [incircle triangle_345]\<rparr>))
   \<and> circInTriangle triangle_345 (Some 2) None False (Some (1 / 2))
       = Some (Inr (Some [incircle triangle_345],
                    triangle_345\<lparr>lstCirc := Some [incircle triangle_345]\<rparr>))
   \<and> circInTriangle triangle_345 (Some (- 1)) None False None
       = Some (Inr (Some [incircle triangle_345],
                    triangle_345\<lparr>lstCirc := Some [incircle triangle_345]\<rparr>))"
  by (simp add: Triangle_init_345 circInTriangle_def resolve_length_def vertexLoop_no_mode)

text \<open>
  C6, amended. The call ends in \<^verbatim>\<open>ValueError\<close> exactly when \<^verbatim>\<open>length\<close> and the legacy
  \<^verbatim>\<open>lenght\<close> are both given with different values. Without such a conflict, when both
  or none of depth and length are given, or the depth is negative, the call returns the
  list that holds the incircle only. Equal values for \<^verbatim>\<open>length\<close> and \<^verbatim>\<open>lenght\<close> give
  the same as either of them alone.
\<close>

theorem C6_only_alias_conflict_raises:
  "(circInTriangle self depth lenght want2plot length' = Some (Inl ValueError)
      \<longleftrightarrow> (\<exists>x y. lenght = Some x \<and> length' = Some y \<and> x \<noteq> y))
   \<and> (\<not> (\<exists>x y. lenght = Some x \<and> length' = Some y \<and> x \<noteq> y)
        \<and> ((depth \<noteq> None \<and> (lenght \<noteq> None \<or> length' \<noteq> None))
           \<or> (depth = None \<and> lenght = None \<and> length' = None)
           \<or> (\<exists>d. depth = Some d \<and> d < 0))
      \<longrightarrow> circInTriangle self depth lenght want2plot length'
            = Some (Inr (if want2plot then None else Some [incircle self],
                         self\<lparr>lstCirc := Some [incircle self]\<rparr>)))
   \<and> circInTriangle self depth (Some v) want2plot (Some v)
       = circInTriangle self depth None want2plot (Some v)
   \<and> circInTriangle self depth (Some v) want2plot (Some v)
       = circInTriangle self depth (Some v) want2plot None"
proof (intro conjI)
  show "circInTriangle self depth lenght want2plot length' = Some (Inl ValueError)
      \<longleftrightarrow> (\<exists>x y. lenght = Some x \<and> length' = Some y \<and> x \<noteq> y)"
  proof
    assume e: "circInTriangle self depth lenght want2plot length' = Some (Inl ValueError)"
    show "\<exists>x y. lenght = Some x \<and> length' = Some y \<and> x \<noteq> y"
    proof (cases "resolve_length lenght length'")
      case (Inl err)
      then show ?thesis
        by (auto simp: resolve_length_def split: option.splits if_splits)
    next
      case (Inr l)
      with e vertexLoop_no_ValueError [of "incircle self" depth l
          "zip (map snd (vertices self)) (distToIncenter self)" "[incircle self]"]
      show ?thesis
        by (auto simp: circInTriangle_def split: option.splits sum.splits)
    qed
  next
    assume "\<exists>x y. lenght = Some x \<and> length' = Some y \<and> x \<noteq> y"
    then show "circInTriangle self depth lenght want2plot length' = Some (Inl ValueError)"
      by (auto simp: circInTriangle_def resolve_length_def)
  qed
next
  show "\<not> (\<exists>x y. lenght = Some x \<and> length' = Some y \<and> x \<noteq> y)
        \<and> ((depth \<noteq> None \<and> (lenght \<noteq> None \<or> length' \<noteq> None))
           \<or> (depth = None \<and> lenght = None \<and> length' = None)
           \<or> (\<exists>d. depth = Some d \<and> d < 0))
      \<longrightarrow> circInTriangle self depth lenght want2plot length'
            = Some (Inr (if want2plot then None else Some [incircle self],
                         self\<lparr>lstCirc := Some [incircle self]\<rparr>))"
  proof
    assume a: "\<not> (\<exists>x y. lenght = Some x \<and> length' = Some y \<and> x \<noteq> y)
        \<and> ((depth \<noteq> None \<and> (lenght \<noteq> None \<or> length' \<noteq> None))
           \<or> (depth = None \<and> lenght = None \<and> length' = None)
           \<or> (\<exists>d. depth = Some d \<and> d < 0))"
    then obtain l where l: "resolve_length lenght length' = Inr l"
      and lN: "l = None \<longleftrightarrow> lenght = None \<and> length' = None"
      by (cases lenght; cases length') (auto simp: resolve_length_def)
    have "\<not> (depth = None \<and> l \<noteq> None)" "\<not> (l = None \<and> depth \<noteq> None \<and> the depth \<ge> 0)"
      using a lN by auto
    from vertexLoop_no_mode [OF this]
    show "circInTriangle self depth lenght want2plot length'
            = Some (Inr (if want2plot then None else Some [incircle self],
                         self\<lparr>lstCirc := Some [incircle self]\<rparr>))"
      by (simp add: circInTriangle_def l)
  qed
next
  show "circInTriangle self depth (Some v) want2plot (Some v)
       = circInTriangle self depth None want2plot (Some v)"
    by (simp add: circInTriangle_def resolve_length_def)
next
  show "circInTriangle self depth (Some v) want2plot (Some v)
       = circInTriangle self depth (Some v) want2plot None"
    by (simp add: circInTriangle_def resolve_length_def)
qed

text \<open>
  The witness, on \<open>triangle_345\<close>: length 1/2 against lenght 1/4 ends in
  \<^verbatim>\<open>ValueError\<close>; no depth and no length gives the incircle alone; length and lenght both
  1/2 give what length 1/2 alone gives.
\<close>

theorem C6_only_alias_conflict_raises_witness:
  "circInTriangle triangle_345 None (Some (1 / 4)) False (Some (1 / 2)) = Some (Inl ValueError)
   \<and> circInTriangle triangle_345 None None True None
       = Some (Inr (None, triangle_345\<lparr>lstCirc := Some [incircle triangle_345]\<rparr>))
   \<and> circInTriangle triangle_345 None (Some (1 / 2)) False (Some (1 / 2))
       = circInTriangle triangle_345 None None False (Some (1 / 2))"
proof -
  have c: "\<exists>x y. Some (1 / 4 :: real) = Some x \<and> Some (1 / 2 :: real) = Some y \<and> x \<noteq> y"
    by (intro exI [of _ "1 / 4"] exI [of _ "1 / 2"]) simp
  show ?thesis
    using C6_only_alias_conflict_raises
            [of triangle_345 None "Some (1 / 4)" False "Some (1 / 2)" "1 / 2"] c
      C6_only_alias_conflict_raises [of triangle_345 None None True None "1 / 2"]
    by (simp del: ex_simps)
qed

section \<open>The construction on circles that do not touch\<close>

text \<open>
  The construction takes the distance of the two centres to be the sum of the radii and
  never compares it with the real distance. On the unit circles around (0, 0) and (10, 0),
  which are 10 apart, it returns two circles of radius 1/4 without any error, and these
  touch neither of the given circles.
\<close>

lemma descartesTheorem_without_tangency:
  "\<not> tangent (circle_of (0, 0) 1) (circle_of (10, 0) 1)
   \<and> descartesTheorem (circle_of (0, 0) 1) (circle_of (10, 0) 1) None
       = Inr (circle_of (5, 15 / 4) (1 / 4), circle_of (5, - (15 / 4)) (1 / 4))
   \<and> \<not> tangent (circle_of (5, 15 / 4) (1 / 4)) (circle_of (0, 0) 1)
   \<and> \<not> tangent (circle_of (5, 15 / 4) (1 / 4)) (circle_of (10, 0) 1)"
proof -
  have s: "sqrt (9 / 16) = 3 / 4" "sqrt (625 / 16) = 25 / 4" "sqrt 100 = 10"
    by (rule sqrt_eqI; simp add: power2_eq_square)+
  have r: "descartes_radius (circle_of (0, 0) 1) (circle_of (10, 0) 1) None = Inr (1 / 4)"
    by (simp add: descartes_radius_def pow_half_def pow_neg1_def)
  have c: "descartes_centers (circle_of (0, 0) 1) (circle_of (10, 0) 1) (1 / 4)
       = Inr (circle_of (5, 15 / 4) (1 / 4), circle_of (5, - (15 / 4)) (1 / 4))"
    by (simp add: descartes_centers_def Let_def pow_half_def Circle_init_def power2_eq_square s)
  have t: "\<not> tangent (circle_of (0, 0) 1) (circle_of (10, 0) 1)"
    "\<not> tangent (circle_of (5, 15 / 4) (1 / 4)) (circle_of (0, 0) 1)"
    "\<not> tangent (circle_of (5, 15 / 4) (1 / 4)) (circle_of (10, 0) 1)"
    by (simp_all add: tangent_def euclidean_distance_def power2_eq_square s)
  show ?thesis using r c t by (simp add: descartesTheorem_def)
qed

end
